theory Spec2Isabelle
  imports Main
begin

section \<open>JavaScript strings\<close>

text \<open>
  The module \<^verbatim>\<open>src/filesystem/path-utils.ts\<close> is a set of pure functions on strings.
  A JavaScript string is a sequence of UTF-16 code units; here it is a \<^typ>\<open>string\<close>, so a
  \<^typ>\<open>char\<close> stands for a code unit below 256. The regular expressions of the module
  only name ASCII characters, and each of them is written out below as the recursive
  function that the regular-expression engine computes for it.
\<close>

abbreviation SLASH :: char where "SLASH \<equiv> CHR ''/''"
abbreviation BSLASH :: char where "BSLASH \<equiv> CHR 0x5C"
abbreviation DQUOTE :: char where "DQUOTE \<equiv> CHR 0x22"
abbreviation SQUOTE :: char where "SQUOTE \<equiv> CHR 0x27"

definition isLower :: "char \<Rightarrow> bool" where
  \<comment> \<open>the class \<^verbatim>\<open>[a-z]\<close>\<close>
  "isLower c = (97 \<le> (of_char c :: nat) \<and> (of_char c :: nat) \<le> 122)"

definition isUpper :: "char \<Rightarrow> bool" where
  \<comment> \<open>the class \<^verbatim>\<open>[A-Z]\<close>\<close>
  "isUpper c = (65 \<le> (of_char c :: nat) \<and> (of_char c :: nat) \<le> 90)"

definition isLetter :: "char \<Rightarrow> bool" where
  \<comment> \<open>the class \<^verbatim>\<open>[a-zA-Z]\<close>, which is also what \<^verbatim>\<open>[a-z]\<close> matches under the flag \<^verbatim>\<open>i\<close>\<close>
  "isLetter c = (isLower c \<or> isUpper c)"

definition isHexDigit :: "char \<Rightarrow> bool" where
  \<comment> \<open>the class \<^verbatim>\<open>[0-9A-Fa-f]\<close>\<close>
  "isHexDigit c =
     (let n = (of_char c :: nat)
      in (48 \<le> n \<and> n \<le> 57) \<or> (65 \<le> n \<and> n \<le> 70) \<or> (97 \<le> n \<and> n \<le> 102))"

definition isQuote :: "char \<Rightarrow> bool" where
  \<comment> \<open>the class \<^verbatim>\<open>["']\<close>\<close>
  "isQuote c = (c = DQUOTE \<or> c = SQUOTE)"

definition isWhiteSpace :: "char \<Rightarrow> bool" where
  \<comment> \<open>what \<^verbatim>\<open>trim\<close> removes, among the code units below 256: TAB, LF, VT, FF, CR, SP, NBSP\<close>
  "isWhiteSpace c = ((of_char c :: nat) \<in> {9, 10, 11, 12, 13, 32, 160})"

definition toUpperChar :: "char \<Rightarrow> char" where
  \<comment> \<open>\<^verbatim>\<open>toUpperCase\<close> on one ASCII code unit (the module applies it to one character at a
      time); the case mapping of the code units from 128 on is not modelled, and every
      statement below applies it to ASCII input\<close>
  "toUpperChar c = (if isLower c then char_of ((of_char c :: nat) - 32) else c)"

definition toUpperCase :: "string \<Rightarrow> string" where
  "toUpperCase s = map toUpperChar s"

definition eqIgnoreCase :: "char \<Rightarrow> char \<Rightarrow> bool" where
  \<comment> \<open>a literal character of a pattern with the flag \<^verbatim>\<open>i\<close> against a character of the input\<close>
  "eqIgnoreCase c d = (toUpperChar c = toUpperChar d)"

definition startsWith :: "string \<Rightarrow> string \<Rightarrow> bool" where
  "startsWith s pre = (take (length pre) s = pre)"

definition charAt :: "string \<Rightarrow> nat \<Rightarrow> string" where
  \<comment> \<open>the empty string when the index is out of range\<close>
  "charAt s i = (if i < length s then [s ! i] else [])"

definition slice :: "string \<Rightarrow> nat \<Rightarrow> string" where
  \<comment> \<open>\<^verbatim>\<open>s.slice(n)\<close> and \<^verbatim>\<open>s.substring(n)\<close> for a literal \<^verbatim>\<open>n \<ge> 0\<close>\<close>
  "slice s n = drop n s"

definition slice2 :: "string \<Rightarrow> nat \<Rightarrow> nat \<Rightarrow> string" where
  \<comment> \<open>\<^verbatim>\<open>s.slice(i, j)\<close> for literals \<^verbatim>\<open>0 \<le> i \<le> j\<close>\<close>
  "slice2 s i j = take (j - i) (drop i s)"

definition trim :: "string \<Rightarrow> string" where
  "trim s = rev (dropWhile isWhiteSpace (rev (dropWhile isWhiteSpace s)))"

section \<open>The regular expressions of the module\<close>

definition replaceSlashes :: "string \<Rightarrow> string" where
  \<comment> \<open>\<^verbatim>\<open>.replace(/\//g, '\\')\<close>\<close>
  "replaceSlashes s = map (\<lambda>c. if c = SLASH then BSLASH else c) s"

fun stripQuotesFrom :: "bool \<Rightarrow> string \<Rightarrow> string" where
  \<comment> \<open>\<^verbatim>\<open>.replace(/^["']|["']$/g, '')\<close>, scanning from the left; the flag tells whether the
      scan is at index 0. A quote is deleted when it is the first or the last character.\<close>
  "stripQuotesFrom atStart [] = []"
| "stripQuotesFrom atStart (c # cs) =
     (if isQuote c \<and> (atStart \<or> cs = []) then stripQuotesFrom False cs
      else c # stripQuotesFrom False cs)"

definition stripQuotes :: "string \<Rightarrow> string" where
  "stripQuotes s = stripQuotesFrom True s"

function collapseSlashes :: "string \<Rightarrow> string" where
  \<comment> \<open>\<^verbatim>\<open>.replace(/\/+/g, '/')\<close>: each maximal run of slashes becomes one slash\<close>
  "collapseSlashes [] = []"
| "collapseSlashes (c # cs) =
     (if c = SLASH then SLASH # collapseSlashes (dropWhile (\<lambda>d. d = SLASH) cs)
      else c # collapseSlashes cs)"
  by pat_completeness auto
termination
  by (relation "measure length") (auto simp: length_dropWhile_le less_Suc_eq_le)

definition stripTrailingSlashes :: "string \<Rightarrow> string" where
  \<comment> \<open>\<^verbatim>\<open>.replace(/\/+$/, '')\<close>: the run of slashes that ends the string is deleted\<close>
  "stripTrailingSlashes s = rev (dropWhile (\<lambda>d. d = SLASH) (rev s))"

definition replaceLeadingBackslashes :: "string \<Rightarrow> string" where
  \<comment> \<open>\<^verbatim>\<open>.replace(/^\\{2,}/, '\\\\')\<close>: a leading run of two or more backslashes becomes two\<close>
  "replaceLeadingBackslashes s =
     (if startsWith s [BSLASH, BSLASH] then [BSLASH, BSLASH] @ dropWhile (\<lambda>d. d = BSLASH) s
      else s)"

fun replaceDoubleBackslashes :: "string \<Rightarrow> string" where
  \<comment> \<open>\<^verbatim>\<open>.replace(/\\\\/g, '\\')\<close>: from the left, each pair of backslashes becomes one\<close>
  "replaceDoubleBackslashes (a # b # cs) =
     (if a = BSLASH \<and> b = BSLASH then BSLASH # replaceDoubleBackslashes cs
      else a # replaceDoubleBackslashes (b # cs))"
| "replaceDoubleBackslashes cs = cs"

definition matchUnixDrive :: "string \<Rightarrow> bool" where
  \<comment> \<open>\<^verbatim>\<open>/^\/[a-zA-Z]\//\<close>\<close>
  "matchUnixDrive s =
     (case s of a # l # b # _ \<Rightarrow> a = SLASH \<and> isLetter l \<and> b = SLASH | _ \<Rightarrow> False)"

definition matchDrive :: "string \<Rightarrow> bool" where
  \<comment> \<open>\<^verbatim>\<open>/^[a-zA-Z]:/\<close>\<close>
  "matchDrive s = (case s of l # c # _ \<Rightarrow> isLetter l \<and> c = CHR '':'' | _ \<Rightarrow> False)"

definition matchLowerDrive :: "string \<Rightarrow> bool" where
  \<comment> \<open>\<^verbatim>\<open>/^[a-z]:/\<close>\<close>
  "matchLowerDrive s = (case s of l # c # _ \<Rightarrow> isLower l \<and> c = CHR '':'' | _ \<Rightarrow> False)"

definition matchWslMount :: "string \<Rightarrow> bool" where
  \<comment> \<open>\<^verbatim>\<open>/^\/mnt\/[a-z]\//i\<close>\<close>
  "matchWslMount s =
     (case s of
        a # m # n # t # b # l # c # _ \<Rightarrow>
          a = SLASH \<and> eqIgnoreCase (CHR ''m'') m \<and> eqIgnoreCase (CHR ''n'') n \<and>
          eqIgnoreCase (CHR ''t'') t \<and> b = SLASH \<and> isLetter l \<and> c = SLASH
      | _ \<Rightarrow> False)"

fun hasPercentEscape :: "string \<Rightarrow> bool" where
  \<comment> \<open>\<^verbatim>\<open>/%[0-9A-Fa-f]{2}/\<close>, anywhere in the string\<close>
  "hasPercentEscape (a # b # c # cs) =
     ((a = CHR ''%'' \<and> isHexDigit b \<and> isHexDigit c) \<or> hasPercentEscape (b # c # cs))"
| "hasPercentEscape cs = False"

definition stripFileScheme :: "string \<Rightarrow> string" where
  \<comment> \<open>\<^verbatim>\<open>.replace(/^file:\/\//i, '')\<close>\<close>
  "stripFileScheme s =
     (if length s \<ge> 7 \<and> list_all2 eqIgnoreCase ''file://'' (take 7 s) then drop 7 s else s)"

section \<open>convertToWindowsPath\<close>

definition convertToWindowsPath :: "string \<Rightarrow> string" where
  "convertToWindowsPath p =
     (if startsWith p ''/mnt/'' then
        (let driveLetter = toUpperCase (charAt p 5);
             pathPart = replaceSlashes (slice p 6)
         in driveLetter @ '':'' @ pathPart)
      else if matchUnixDrive p then
        (let driveLetter = toUpperCase (charAt p 1);
             pathPart = replaceSlashes (slice p 2)
         in driveLetter @ '':'' @ pathPart)
      else if matchDrive p then replaceSlashes p
      else p)"

section \<open>normalizePath\<close>

text \<open>
  \<^verbatim>\<open>path.normalize\<close> is the platform's library function (Node's \<^verbatim>\<open>path\<close> module), not
  code of the module: \<open>normalizePath\<close> takes it as its first argument \<open>pn\<close>, and the
  theorems below hold for every \<open>pn\<close> unless they say what they need of it.
\<close>

definition unquote :: "string \<Rightarrow> string" where
  \<comment> \<open>the first statement: \<^verbatim>\<open>p.trim().replace(/^["']|["']$/g, '')\<close>\<close>
  "unquote p = stripQuotes (trim p)"

definition isUnixPath :: "string \<Rightarrow> bool" where
  "isUnixPath p = (startsWith p ''/'' \<and> \<not> matchWslMount p \<and> \<not> matchUnixDrive p)"

definition collapseBackslashes :: "string \<Rightarrow> string" where
  \<comment> \<open>the statement that handles double backslashes, keeping the two that start a UNC path\<close>
  "collapseBackslashes p =
     (if startsWith p [BSLASH, BSLASH] then
        (let uncPath = replaceLeadingBackslashes p;
             restOfPath = replaceDoubleBackslashes (slice uncPath 2)
         in [BSLASH, BSLASH] @ restOfPath)
      else replaceDoubleBackslashes p)"

definition fixUnc :: "string \<Rightarrow> string \<Rightarrow> string" where
  \<comment> \<open>the repair after \<^verbatim>\<open>path.normalize\<close>: \<open>p\<close> is its argument, \<open>normalized\<close> its result\<close>
  "fixUnc p normalized =
     (if startsWith p [BSLASH, BSLASH] \<and> \<not> startsWith normalized [BSLASH, BSLASH]
      then BSLASH # normalized else normalized)"

definition finish :: "string \<Rightarrow> string" where
  \<comment> \<open>the last two branches: drive letter capitalised, slashes turned\<close>
  "finish normalized =
     (if matchDrive normalized then
        (let result = replaceSlashes normalized
         in if matchLowerDrive result then toUpperCase (charAt result 0) @ slice result 1
            else result)
      else replaceSlashes normalized)"

definition normalizePath :: "(string \<Rightarrow> string) \<Rightarrow> string \<Rightarrow> string" where
  "normalizePath pn p0 =
     (let p = unquote p0
      in if isUnixPath p then stripTrailingSlashes (collapseSlashes p)
         else
           (let p = collapseBackslashes (convertToWindowsPath p);
                normalized = fixUnc p (pn p)
            in finish normalized))"

section \<open>fileUriToPath and decodePossibleFileUri\<close>

text \<open>
  \<^verbatim>\<open>new URL(uri)\<close> and \<^verbatim>\<open>decodeURIComponent\<close> are library functions that may throw;
  they are the arguments \<open>url\<close> (the \<^verbatim>\<open>pathname\<close> of the parsed URL) and \<open>dec\<close>, with
  values in \<open>js_error + string\<close>. \<open>win32\<close> is \<^verbatim>\<open>process.platform === 'win32'\<close>.
  The two functions return \<open>js_error + string\<close> as well, \<open>Inl\<close> being an exception that
  leaves the function.
\<close>

datatype js_error = TypeError | URIError

definition tryCatch :: "js_error + 'a \<Rightarrow> js_error + 'a \<Rightarrow> js_error + 'a" where
  \<comment> \<open>\<^verbatim>\<open>try { body } catch { handler }\<close>\<close>
  "tryCatch body handler = (case body of Inl _ \<Rightarrow> handler | Inr v \<Rightarrow> Inr v)"

definition fileUriToPathBody ::
  "(string \<Rightarrow> js_error + string) \<Rightarrow> (string \<Rightarrow> js_error + string) \<Rightarrow> bool \<Rightarrow> string
     \<Rightarrow> js_error + string" where
  "fileUriToPathBody url dec win32 uri =
     (if uri = [] then Inr uri
      else if \<not> startsWith uri ''file:'' then Inr uri
      else
        (case url uri of
           Inl e \<Rightarrow> Inl e
         | Inr pathname \<Rightarrow>
             (case dec pathname of
                Inl e \<Rightarrow> Inl e
              | Inr p \<Rightarrow>
                  Inr (if win32 then
                         replaceSlashes
                           (if startsWith p ''/'' \<and> matchDrive (slice2 p 1 3) then slice p 1
                            else p)
                       else p))))"

definition fileUriToPathFallback ::
  "(string \<Rightarrow> js_error + string) \<Rightarrow> string \<Rightarrow> js_error + string" where
  \<comment> \<open>the body of the inner \<^verbatim>\<open>try\<close>\<close>
  "fileUriToPathFallback dec uri =
     (let withoutScheme = stripFileScheme uri
      in case dec withoutScheme of Inl e \<Rightarrow> Inl e | Inr decoded \<Rightarrow> Inr decoded)"

definition fileUriToPath ::
  "(string \<Rightarrow> js_error + string) \<Rightarrow> (string \<Rightarrow> js_error + string) \<Rightarrow> bool \<Rightarrow> string
     \<Rightarrow> js_error + string" where
  "fileUriToPath url dec win32 uri =
     tryCatch (fileUriToPathBody url dec win32 uri)
       (tryCatch (fileUriToPathFallback dec uri) (Inr uri))"

definition decodePossibleFileUri ::
  "(string \<Rightarrow> js_error + string) \<Rightarrow> (string \<Rightarrow> js_error + string) \<Rightarrow> bool \<Rightarrow> string
     \<Rightarrow> js_error + string" where
  "decodePossibleFileUri url dec win32 p =
     (if startsWith p ''file:'' then fileUriToPath url dec win32 p
      else if hasPercentEscape p then tryCatch (dec p) (Inr p)
      else Inr p)"

section \<open>Auxiliary notions for the statements\<close>


definition leadingBackslashes :: "string \<Rightarrow> nat" where
  \<comment> \<open>the length of the run of backslashes that starts the string\<close>
  "leadingBackslashes s = length (takeWhile (\<lambda>d. d = BSLASH) s)"

section \<open>Facts about the string primitives\<close>

lemma toUpperChar_not_slash: "isLower c \<Longrightarrow> toUpperChar c \<noteq> SLASH"
proof
  assume l: "isLower c" and e: "toUpperChar c = SLASH"
  from l have "(of_char (toUpperChar c) :: nat) = (of_char c - 32) mod 256"
    by (simp add: toUpperChar_def)
  moreover from l have "65 \<le> (of_char c :: nat) - 32" "(of_char c :: nat) - 32 \<le> 90"
    by (auto simp: isLower_def)
  ultimately have "65 \<le> (of_char (toUpperChar c) :: nat)" by simp
  with e show False by simp
qed

lemma toUpperChar_upper: "isLower c \<Longrightarrow> isUpper (toUpperChar c)"
proof -
  assume l: "isLower c"
  then have "(of_char (toUpperChar c) :: nat) = (of_char c - 32) mod 256"
    by (simp add: toUpperChar_def)
  moreover from l have "65 \<le> (of_char c :: nat) - 32" "(of_char c :: nat) - 32 \<le> 90"
    by (auto simp: isLower_def)
  ultimately show ?thesis by (simp add: isUpper_def)
qed

lemma toUpperChar_id: "\<not> isLower c \<Longrightarrow> toUpperChar c = c"
  by (simp add: toUpperChar_def)

lemma replaceSlashes_no_slash: "SLASH \<notin> set (replaceSlashes s)"
  by (auto simp: replaceSlashes_def)

lemma finish_no_slash: "SLASH \<notin> set (finish n)"
proof (cases "matchDrive n \<and> matchLowerDrive (replaceSlashes n)")
  case True
  then obtain l c r where r: "replaceSlashes n = l # c # r" and l: "isLower l"
    by (auto simp: matchLowerDrive_def split: list.splits)
  have "SLASH \<notin> set (l # c # r)" using replaceSlashes_no_slash [of n] r by simp
  then have "SLASH \<notin> set (toUpperChar l # c # r)"
    using toUpperChar_not_slash [OF l] by simp
  moreover have "finish n = toUpperChar l # c # r"
    using True r by (simp add: finish_def toUpperCase_def charAt_def slice_def)
  ultimately show ?thesis by simp
next
  case False
  then have "finish n = replaceSlashes n" by (auto simp: finish_def Let_def)
  then show ?thesis by (simp add: replaceSlashes_no_slash)
qed


lemma collapseSlashes_head: "c \<noteq> SLASH \<Longrightarrow> collapseSlashes (c # cs) = c # collapseSlashes cs"
  by simp












lemma stripQuotesFrom_False:
  "stripQuotesFrom False s = (if s \<noteq> [] \<and> isQuote (last s) then butlast s else s)"
  by (induction s) auto

lemma letter_not_special:
  "isLetter l \<Longrightarrow> l \<noteq> SLASH \<and> l \<noteq> BSLASH \<and> l \<noteq> CHR '':'' \<and> \<not> isQuote l \<and> \<not> isWhiteSpace l"
  by (auto simp: isLetter_def isLower_def isUpper_def isQuote_def isWhiteSpace_def)

lemma rev_dropWhile_rev_Cons:
  "\<not> P a \<Longrightarrow> rev (dropWhile P (rev (a # s))) = a # rev (dropWhile P (rev s))"
  by (simp add: dropWhile_append)

lemma trim_keeps2:
  "\<not> isWhiteSpace a \<Longrightarrow> \<not> isWhiteSpace b \<Longrightarrow>
   trim (a # b # rest) = a # b # rev (dropWhile isWhiteSpace (rev rest))"
  by (simp add: trim_def dropWhile_append)

lemma unquote_keeps2:
  assumes "\<not> isWhiteSpace a" "\<not> isWhiteSpace b" "\<not> isQuote a" "\<not> isQuote b"
  shows "unquote (a # b # rest) =
         a # b # stripQuotesFrom False (rev (dropWhile isWhiteSpace (rev rest)))"
  using assms by (simp add: unquote_def stripQuotes_def trim_keeps2)

lemma replaceDoubleBackslashes_Cons:
  "a \<noteq> BSLASH \<Longrightarrow> replaceDoubleBackslashes (a # s) = a # replaceDoubleBackslashes s"
  by (cases s) auto

lemma replaceDoubleBackslashes_hd:
  "s = [] \<or> hd s \<noteq> BSLASH \<Longrightarrow>
   replaceDoubleBackslashes s = [] \<or> hd (replaceDoubleBackslashes s) \<noteq> BSLASH"
  by (cases s) (auto simp: replaceDoubleBackslashes_Cons)

lemma replaceDoubleBackslashes_dropWhile_hd:
  "replaceDoubleBackslashes (dropWhile (\<lambda>d. d = BSLASH) u) = [] \<or>
   hd (replaceDoubleBackslashes (dropWhile (\<lambda>d. d = BSLASH) u)) \<noteq> BSLASH"
proof (rule replaceDoubleBackslashes_hd)
  show "dropWhile (\<lambda>d. d = BSLASH) u = [] \<or> hd (dropWhile (\<lambda>d. d = BSLASH) u) \<noteq> BSLASH"
    using hd_dropWhile [of "\<lambda>d. d = BSLASH" u] by blast
qed

lemma leadingBackslashes_two:
  "r = [] \<or> hd r \<noteq> BSLASH \<Longrightarrow> leadingBackslashes (BSLASH # BSLASH # r) = 2"
  by (cases r) (auto simp: leadingBackslashes_def)

lemma convertToWindowsPath_unc:
  "convertToWindowsPath (BSLASH # BSLASH # u) = BSLASH # BSLASH # u"
  by (simp add: convertToWindowsPath_def startsWith_def matchUnixDrive_def matchDrive_def
      isLetter_def isLower_def isUpper_def split: list.splits)

lemma collapseBackslashes_unc:
  "collapseBackslashes (BSLASH # BSLASH # u) =
   BSLASH # BSLASH # replaceDoubleBackslashes (dropWhile (\<lambda>d. d = BSLASH) u)"
  by (simp add: collapseBackslashes_def startsWith_def replaceLeadingBackslashes_def slice_def)

lemma isUnixPath_head: "a \<noteq> SLASH \<Longrightarrow> \<not> isUnixPath (a # s)"
  by (simp add: isUnixPath_def startsWith_def)

lemma finish_backslash: "finish (BSLASH # n) = BSLASH # replaceSlashes n"
  by (simp add: finish_def matchDrive_def isLetter_def isLower_def isUpper_def replaceSlashes_def
      split: list.splits)

lemma fixUnc_backslash: "startsWith p [BSLASH, BSLASH] \<Longrightarrow> \<exists>n'. fixUnc p n = BSLASH # n'"
  by (cases n) (auto simp: fixUnc_def startsWith_def)

lemma tryCatch_returns: "\<exists>v. tryCatch body (Inr d) = Inr v"
  by (cases body) (simp_all add: tryCatch_def)

lemma tryCatch_nested_returns: "\<exists>v. tryCatch body (tryCatch body' (Inr d)) = Inr v"
  using tryCatch_returns [of body' d] by (cases body) (simp_all add: tryCatch_def)

lemma fileUriToPathFallback_caught:
  "tryCatch (fileUriToPathFallback dec uri) (Inr uri) =
   Inr (case dec (stripFileScheme uri) of Inl e \<Rightarrow> uri | Inr decoded \<Rightarrow> decoded)"
  by (simp add: tryCatch_def fileUriToPathFallback_def split: sum.splits)
















lemma leadingBackslashes_Cons:
  "leadingBackslashes (a # s) = (if a = BSLASH then Suc (leadingBackslashes s) else 0)"
  by (simp add: leadingBackslashes_def)

lemma leadingBackslashes_Nil: "leadingBackslashes [] = 0"
  by (simp add: leadingBackslashes_def)

lemma leadingBackslashes_zero: "leadingBackslashes s = 0 \<Longrightarrow> dropWhile (\<lambda>d. d = BSLASH) s = s"
  by (cases s) (simp_all add: leadingBackslashes_Cons split: if_splits)

lemma fixUnc_restores:
  assumes p: "startsWith p [BSLASH, BSLASH]"
    and lo: "1 \<le> leadingBackslashes n" and hi: "leadingBackslashes n \<le> 2"
  shows "fixUnc p n = BSLASH # BSLASH # dropWhile (\<lambda>d. d = BSLASH) n"
proof (cases n)
  case Nil
  with lo show ?thesis by (simp add: leadingBackslashes_Nil)
next
  case (Cons a n1)
  with lo have a: "a = BSLASH" by (simp add: leadingBackslashes_Cons split: if_splits)
  show ?thesis
  proof (cases "startsWith n [BSLASH, BSLASH]")
    case True
    then obtain n2 where n: "n = BSLASH # BSLASH # n2"
      by (cases n; cases "tl n") (auto simp: startsWith_def)
    from hi have "leadingBackslashes n2 = 0" by (simp add: n leadingBackslashes_Cons)
    then have "dropWhile (\<lambda>d. d = BSLASH) n2 = n2" by (rule leadingBackslashes_zero)
    then show ?thesis using True by (simp add: n fixUnc_def)
  next
    case False
    then have "leadingBackslashes n1 = 0"
      using Cons a by (cases n1) (auto simp: startsWith_def leadingBackslashes_Cons leadingBackslashes_Nil)
    then have "dropWhile (\<lambda>d. d = BSLASH) n1 = n1" by (rule leadingBackslashes_zero)
    then show ?thesis using False p by (simp add: Cons a fixUnc_def)
  qed
qed

lemma replaceSlashes_hd:
  assumes "t = [] \<or> hd t \<noteq> BSLASH" and "\<not> startsWith t ''/''"
  shows "replaceSlashes t = [] \<or> hd (replaceSlashes t) \<noteq> BSLASH"
  using assms by (cases t) (auto simp: replaceSlashes_def startsWith_def)

lemma dropWhile_backslash_hd:
  "dropWhile (\<lambda>d. d = BSLASH) n = [] \<or> hd (dropWhile (\<lambda>d. d = BSLASH) n) \<noteq> BSLASH"
  using hd_dropWhile [of "\<lambda>d. d = BSLASH" n] by blast

section \<open>Idempotence of normalizePath\<close>




section \<open>The Unix branch of normalizePath\<close>

text \<open>
  C2 says that the Unix branch never reduces the bare input \<^verbatim>\<open>/\<close> to the empty string.
  The code deletes the whole trailing run of slashes, the root included: on \<^verbatim>\<open>/\<close> it
  returns the empty string, whatever \<^verbatim>\<open>path.normalize\<close> is.
\<close>

theorem normalizePath_root_is_empty: "normalizePath pn ''/'' = []"
  by code_simp

section \<open>convertToWindowsPath\<close>

text \<open>
  C3 says that an input matching none of the three drive forms is returned unchanged, as
  \<^verbatim>\<open>/mnt/foo/bar\<close> is. The first branch only tests the prefix \<^verbatim>\<open>/mnt/\<close>, so that input
  is rewritten: its sixth character becomes the drive and what follows it the body.
\<close>

theorem convertToWindowsPath_mnt_foo:
  "convertToWindowsPath ''/mnt/foo/bar'' = ''F:oo'' @ [BSLASH] @ ''bar''"
  by code_simp

section \<open>Slash direction outside the Unix branch\<close>

text \<open>
  C10: when \<open>normalizePath\<close> does not take the Unix branch, the string it returns has no
  forward slash, for every \<^verbatim>\<open>path.normalize\<close>.
\<close>

theorem normalizePath_no_slash:
  "\<not> isUnixPath (unquote x) \<Longrightarrow> SLASH \<notin> set (normalizePath pn x)"
  by (simp add: normalizePath_def Let_def finish_no_slash)

theorem normalizePath_no_slash_witness:
  "\<not> isUnixPath (unquote ''some/relative/path'') \<and>
   SLASH \<notin> set (normalizePath id ''some/relative/path'')"
proof -
  have h: "\<not> isUnixPath (unquote ''some/relative/path'')" by code_simp
  from normalizePath_no_slash [OF h, of id] h show ?thesis by simp
qed

section \<open>The first stage of normalizePath\<close>

text \<open>
  C4 says that the quotes are stripped only when both a leading and a trailing one are
  present, and that a quote on one side only is kept. It fails: the pattern
  \<^verbatim>\<open>/^["']|["']$/g\<close> deletes a quote at either end on its own.
\<close>

theorem unquote_one_sided_counterexample:
  "unquote (DQUOTE # ''abc'') = ''abc'' \<and> unquote (''abc'' @ [SQUOTE]) = ''abc''"
  by code_simp

text \<open>
  C4, amended: after trimming, a quote character that starts the string is deleted, and
  then a quote character that ends what is left is deleted, each whether or not the other
  is there. (A string that is a single quote character becomes empty.)
\<close>

theorem unquote_strips_each_side:
  "unquote p =
     (let t = trim p;
          a = (if t \<noteq> [] \<and> isQuote (hd t) then tl t else t)
      in if a \<noteq> [] \<and> isQuote (last a) then butlast a else a)"
proof (cases "trim p")
  case Nil
  then show ?thesis by (simp add: unquote_def stripQuotes_def)
next
  case (Cons c cs)
  show ?thesis
  proof (cases "isQuote c")
    case True
    then show ?thesis
      using Cons by (simp add: unquote_def stripQuotes_def stripQuotesFrom_False)
  next
    case False
    have "stripQuotesFrom True (c # cs) = stripQuotesFrom False (c # cs)"
      using False by simp
    then show ?thesis
      using Cons False by (simp add: unquote_def stripQuotes_def stripQuotesFrom_False)
  qed
qed

section \<open>UNC paths\<close>

text \<open>
  C5 says that for every input with two to five leading backslashes the result has exactly
  two. It fails where a slash follows the leading run, so that no server name does:
  \<open>normalizePath\<close> hands \<^verbatim>\<open>\\/a\<close> (two backslashes, a slash, \<^verbatim>\<open>a\<close>) to \<^verbatim>\<open>path.normalize\<close>,
  which on a POSIX platform returns it as it is (a backslash is an ordinary character there
  and no segment is resolved), so \<open>pn\<close> is the identity at this input, and the result has
  three leading backslashes.
\<close>

theorem normalizePath_unc_counterexample:
  "normalizePath id ([BSLASH, BSLASH] @ ''/a'') = [BSLASH, BSLASH, BSLASH] @ ''a'' \<and>
   leadingBackslashes (normalizePath id ([BSLASH, BSLASH] @ ''/a'')) = 3"
  by code_simp

text \<open>
  C5, amended: for every input that starts with two or more backslashes, the string handed
  to \<^verbatim>\<open>path.normalize\<close> is two backslashes followed by the rest of the unquoted input after
  its leading run, with each doubled backslash of that rest collapsed; it has exactly two
  leading backslashes. The result of \<open>normalizePath\<close> starts with a backslash, and it has
  exactly two leading backslashes whenever what \<^verbatim>\<open>path.normalize\<close> returns starts with one
  or two backslashes that are not followed by a slash: the pair it kept is left alone, and
  a single one it left is made a pair again. Nothing is said of the result where a slash
  follows the leading backslashes.
\<close>

theorem normalizePath_unc:
  assumes x: "startsWith x [BSLASH, BSLASH]"
  shows "collapseBackslashes (convertToWindowsPath (unquote x)) =
           [BSLASH, BSLASH] @ replaceDoubleBackslashes (dropWhile (\<lambda>d. d = BSLASH) (unquote x)) \<and>
         leadingBackslashes (collapseBackslashes (convertToWindowsPath (unquote x))) = 2 \<and>
         startsWith (normalizePath pn x) [BSLASH] \<and>
         (1 \<le> leadingBackslashes (pn (collapseBackslashes (convertToWindowsPath (unquote x)))) \<and>
          leadingBackslashes (pn (collapseBackslashes (convertToWindowsPath (unquote x)))) \<le> 2 \<and>
          \<not> startsWith
               (dropWhile (\<lambda>d. d = BSLASH)
                  (pn (collapseBackslashes (convertToWindowsPath (unquote x))))) ''/''
          \<longrightarrow> leadingBackslashes (normalizePath pn x) = 2)"
proof -
  let ?p = "collapseBackslashes (convertToWindowsPath (unquote x))"
  from x obtain rest where xr: "x = BSLASH # BSLASH # rest"
    by (cases x; cases "tl x") (auto simp: startsWith_def)
  define u where "u = stripQuotesFrom False (rev (dropWhile isWhiteSpace (rev rest)))"
  have uq: "unquote x = BSLASH # BSLASH # u"
    unfolding xr u_def by (rule unquote_keeps2) (simp_all add: isWhiteSpace_def isQuote_def)
  define r where "r = replaceDoubleBackslashes (dropWhile (\<lambda>d. d = BSLASH) u)"
  have p: "?p = BSLASH # BSLASH # r"
    by (simp only: uq convertToWindowsPath_unc collapseBackslashes_unc r_def)
  have r: "r = [] \<or> hd r \<noteq> BSLASH"
    unfolding r_def by (rule replaceDoubleBackslashes_dropWhile_hd)
  have c1: "?p = [BSLASH, BSLASH] @ replaceDoubleBackslashes (dropWhile (\<lambda>d. d = BSLASH) (unquote x))"
    unfolding p by (simp add: r_def uq)
  have c2: "leadingBackslashes ?p = 2"
    unfolding p by (rule leadingBackslashes_two [OF r])
  have nu: "\<not> isUnixPath (unquote x)" by (simp add: uq isUnixPath_head)
  then have n: "normalizePath pn x = finish (fixUnc ?p (pn ?p))"
    by (simp add: normalizePath_def Let_def)
  have sp: "startsWith ?p [BSLASH, BSLASH]" by (simp add: p startsWith_def)
  from fixUnc_backslash [OF sp] obtain n' where n': "fixUnc ?p (pn ?p) = BSLASH # n'" by blast
  have c3: "normalizePath pn x = replaceSlashes (fixUnc ?p (pn ?p))"
    by (simp add: n n' finish_backslash replaceSlashes_def)
  have c4: "startsWith (normalizePath pn x) [BSLASH]"
    by (simp add: n n' finish_backslash startsWith_def)
  have c5: "leadingBackslashes (normalizePath pn x) = 2"
    if lo: "1 \<le> leadingBackslashes (pn ?p)" and hi: "leadingBackslashes (pn ?p) \<le> 2"
      and ns: "\<not> startsWith (dropWhile (\<lambda>d. d = BSLASH) (pn ?p)) ''/''"
  proof -
    let ?t = "dropWhile (\<lambda>d. d = BSLASH) (pn ?p)"
    have f: "fixUnc ?p (pn ?p) = BSLASH # BSLASH # ?t"
      by (rule fixUnc_restores [OF sp lo hi])
    have e: "normalizePath pn x = BSLASH # BSLASH # replaceSlashes ?t"
      unfolding c3 f by (simp add: replaceSlashes_def)
    have "replaceSlashes ?t = [] \<or> hd (replaceSlashes ?t) \<noteq> BSLASH"
      by (rule replaceSlashes_hd [OF dropWhile_backslash_hd ns])
    then show ?thesis unfolding e by (rule leadingBackslashes_two)
  qed
  from c1 c2 c4 c5 show ?thesis by blast
qed

theorem normalizePath_unc_witness:
  "startsWith ([BSLASH, BSLASH, BSLASH] @ ''server'' @ [BSLASH] @ ''share'') [BSLASH, BSLASH] \<and>
   normalizePath id ([BSLASH, BSLASH, BSLASH] @ ''server'' @ [BSLASH] @ ''share'') =
     [BSLASH, BSLASH] @ ''server'' @ [BSLASH] @ ''share'' \<and>
   leadingBackslashes (normalizePath id ([BSLASH, BSLASH, BSLASH] @ ''server'' @ [BSLASH] @ ''share'')) = 2 \<and>
   startsWith ([BSLASH, BSLASH] @ ''a'') [BSLASH, BSLASH] \<and>
   tl (collapseBackslashes (convertToWindowsPath (unquote ([BSLASH, BSLASH] @ ''a'')))) = [BSLASH] @ ''a'' \<and>
   normalizePath tl ([BSLASH, BSLASH] @ ''a'') = [BSLASH, BSLASH] @ ''a'' \<and>
   leadingBackslashes (normalizePath tl ([BSLASH, BSLASH] @ ''a'')) = 2"
proof -
  let ?x = "[BSLASH, BSLASH, BSLASH] @ ''server'' @ [BSLASH] @ ''share''"
  let ?p = "collapseBackslashes (convertToWindowsPath (unquote ?x))"
  let ?y = "[BSLASH, BSLASH] @ ''a''"
  let ?q = "collapseBackslashes (convertToWindowsPath (unquote ?y))"
  have h: "startsWith ?x [BSLASH, BSLASH]" by code_simp
  have p: "?p = [BSLASH, BSLASH] @ ''server'' @ [BSLASH] @ ''share''" by code_simp
  have lo: "1 \<le> leadingBackslashes (id ?p)" unfolding p by code_simp
  have hi: "leadingBackslashes (id ?p) \<le> 2" unfolding p by code_simp
  have ns: "\<not> startsWith (dropWhile (\<lambda>d. d = BSLASH) (id ?p)) ''/''" unfolding p by code_simp
  have v: "normalizePath id ?x = [BSLASH, BSLASH] @ ''server'' @ [BSLASH] @ ''share''"
    by code_simp
  from normalizePath_unc [OF h, of id] lo hi ns
  have a: "leadingBackslashes (normalizePath id ?x) = 2" by blast
  have g: "startsWith ?y [BSLASH, BSLASH]" by code_simp
  have q: "tl ?q = [BSLASH] @ ''a''" by code_simp
  have lo': "1 \<le> leadingBackslashes (tl ?q)" unfolding q by code_simp
  have hi': "leadingBackslashes (tl ?q) \<le> 2" unfolding q by code_simp
  have ns': "\<not> startsWith (dropWhile (\<lambda>d. d = BSLASH) (tl ?q)) ''/''" unfolding q by code_simp
  have w: "normalizePath tl ?y = [BSLASH, BSLASH] @ ''a''" by code_simp
  from normalizePath_unc [OF g, of tl] lo' hi' ns'
  have b: "leadingBackslashes (normalizePath tl ?y) = 2" by blast
  from h v a g q w b show ?thesis by blast
qed

section \<open>Drive paths\<close>

text \<open>
  C6: for a letter \<open>l\<close>, \<open>convertToWindowsPath\<close> turns \<^verbatim>\<open>/mnt/l/rest\<close> and \<^verbatim>\<open>/l/rest\<close>
  into the upper-cased letter, a colon, and the body that follows the drive segment (the
  slash before \<open>rest\<close> included) with every slash replaced by a backslash.
\<close>

theorem convertToWindowsPath_drive_forms:
  assumes "isLetter l"
  shows "convertToWindowsPath (''/mnt/'' @ l # SLASH # rest) =
           toUpperChar l # CHR '':'' # BSLASH # replaceSlashes rest \<and>
         convertToWindowsPath (SLASH # l # SLASH # rest) =
           toUpperChar l # CHR '':'' # BSLASH # replaceSlashes rest \<and>
         isUpper (toUpperChar l)"
proof -
  have a: "convertToWindowsPath (''/mnt/'' @ l # SLASH # rest) =
           toUpperChar l # CHR '':'' # BSLASH # replaceSlashes rest"
    by (simp add: convertToWindowsPath_def startsWith_def charAt_def slice_def toUpperCase_def
        replaceSlashes_def)
  have "\<not> startsWith (SLASH # l # SLASH # rest) ''/mnt/''"
    by (simp add: startsWith_def)
  moreover have "matchUnixDrive (SLASH # l # SLASH # rest)"
    using assms by (simp add: matchUnixDrive_def)
  ultimately have b: "convertToWindowsPath (SLASH # l # SLASH # rest) =
           toUpperChar l # CHR '':'' # BSLASH # replaceSlashes rest"
    by (simp add: convertToWindowsPath_def charAt_def slice_def toUpperCase_def
        replaceSlashes_def)
  have c: "isUpper (toUpperChar l)"
    using assms toUpperChar_upper [of l] by (auto simp: isLetter_def toUpperChar_def)
  from a b c show ?thesis by blast
qed

theorem convertToWindowsPath_drive_forms_witness:
  "isLetter (CHR ''c'') \<and> isLetter (CHR ''d'') \<and>
   convertToWindowsPath ''/mnt/c/Users/x'' = ''C:'' @ [BSLASH] @ ''Users'' @ [BSLASH] @ ''x'' \<and>
   convertToWindowsPath ''/d/foo/bar'' = ''D:'' @ [BSLASH] @ ''foo'' @ [BSLASH] @ ''bar''"
proof -
  have c: "isLetter (CHR ''c'')" and d: "isLetter (CHR ''d'')" by code_simp+
  have uc: "toUpperChar (CHR ''c'') = CHR ''C''" and ud: "toUpperChar (CHR ''d'') = CHR ''D''"
    by code_simp+
  from convertToWindowsPath_drive_forms [OF c, of "''Users/x''"]
    convertToWindowsPath_drive_forms [OF d, of "''foo/bar''"] c d uc ud
  show ?thesis by (simp add: replaceSlashes_def)
qed

text \<open>
  C7: on an input \<^verbatim>\<open>l:rest\<close> with \<open>l\<close> a letter, \<open>convertToWindowsPath\<close> only turns the
  slashes and leaves the letter as it is; \<open>normalizePath\<close> also upper-cases the letter,
  provided \<^verbatim>\<open>path.normalize\<close> keeps the two characters \<^verbatim>\<open>l:\<close> at the front of its argument
  (as it does on \<^verbatim>\<open>c:\foo\<close>).
\<close>

theorem drive_form:
  assumes l: "isLetter l"
  shows "convertToWindowsPath (l # CHR '':'' # rest) = l # CHR '':'' # replaceSlashes rest \<and>
         (take 2 (pn (collapseBackslashes (convertToWindowsPath (unquote (l # CHR '':'' # rest)))))
            = [l, CHR '':'']
          \<longrightarrow> normalizePath pn (l # CHR '':'' # rest) =
                toUpperChar l # CHR '':'' #
                replaceSlashes
                  (drop 2 (pn (collapseBackslashes
                                 (convertToWindowsPath (unquote (l # CHR '':'' # rest)))))))"
proof -
  let ?x = "l # CHR '':'' # rest"
  let ?p = "collapseBackslashes (convertToWindowsPath (unquote ?x))"
  note ls = letter_not_special [OF l]
  have cw: "convertToWindowsPath (l # CHR '':'' # s) = l # CHR '':'' # replaceSlashes s" for s
    using l ls by (simp add: convertToWindowsPath_def startsWith_def matchUnixDrive_def
        matchDrive_def replaceSlashes_def split: list.splits)
  define u where "u = stripQuotesFrom False (rev (dropWhile isWhiteSpace (rev rest)))"
  have uq: "unquote ?x = l # CHR '':'' # u"
    unfolding u_def using ls by (intro unquote_keeps2) (simp_all add: isWhiteSpace_def isQuote_def)
  have p: "?p = l # CHR '':'' # replaceDoubleBackslashes (replaceSlashes u)"
    using ls by (simp add: uq cw collapseBackslashes_def startsWith_def
        replaceDoubleBackslashes_Cons)
  have nu: "\<not> isUnixPath (unquote ?x)" using ls by (simp add: uq isUnixPath_head)
  have fu: "fixUnc ?p n = n" for n using ls by (simp add: p fixUnc_def startsWith_def)
  have n: "normalizePath pn ?x = finish (pn ?p)"
    using nu fu by (simp add: normalizePath_def Let_def)
  have c2: "normalizePath pn ?x = toUpperChar l # CHR '':'' # replaceSlashes (drop 2 (pn ?p))"
    if t: "take 2 (pn ?p) = [l, CHR '':'']"
  proof -
    have "pn ?p = take 2 (pn ?p) @ drop 2 (pn ?p)" by simp
    then have e: "pn ?p = l # CHR '':'' # drop 2 (pn ?p)" using t by simp
    have "finish (l # CHR '':'' # d) = toUpperChar l # CHR '':'' # replaceSlashes d" for d
      using l ls by (simp add: finish_def matchDrive_def matchLowerDrive_def replaceSlashes_def
          toUpperCase_def charAt_def slice_def toUpperChar_def)
    with e n show ?thesis by metis
  qed
  from cw [of rest] c2 show ?thesis by blast
qed

theorem drive_form_witness:
  "isLetter (CHR ''c'') \<and>
   convertToWindowsPath ''c:/foo'' = ''c:'' @ [BSLASH] @ ''foo'' \<and>
   normalizePath id ''c:/foo'' = ''C:'' @ [BSLASH] @ ''foo''"
proof -
  let ?p = "collapseBackslashes (convertToWindowsPath (unquote ''c:/foo''))"
  have l: "isLetter (CHR ''c'')" by code_simp
  have p: "?p = ''c:'' @ [BSLASH] @ ''foo''" by code_simp
  have t: "take 2 (id ?p) = [CHR ''c'', CHR '':'']" unfolding p by simp
  have u: "toUpperChar (CHR ''c'') = CHR ''C''" by code_simp
  have r: "replaceSlashes ''/foo'' = [BSLASH] @ ''foo''" by code_simp
  have d: "replaceSlashes (drop 2 (id ?p)) = [BSLASH] @ ''foo''" unfolding p by code_simp
  from drive_form [OF l, of "''/foo''" id] t
  have "convertToWindowsPath ''c:/foo'' = CHR ''c'' # CHR '':'' # replaceSlashes ''/foo'' \<and>
        normalizePath id ''c:/foo'' = toUpperChar (CHR ''c'') # CHR '':'' # replaceSlashes (drop 2 (id ?p))"
    by blast
  with l u r d show ?thesis by simp
qed

section \<open>File URIs and percent-encoded paths\<close>

text \<open>
  C8: \<open>fileUriToPath\<close> returns a string on every input, whatever the URL parser and the
  decoder do. An input that does not start with \<^verbatim>\<open>file:\<close> (the empty string included) is
  returned unchanged. When the parser or the decoding of the path name throws, the result
  is the decoding of the input without its leading \<^verbatim>\<open>file://\<close> (matched in either case),
  and the input itself when that decoding throws as well.
\<close>

theorem fileUriToPath_never_raises:
  "(\<exists>s. fileUriToPath url dec win32 uri = Inr s) \<and>
   (\<not> startsWith uri ''file:'' \<longrightarrow> fileUriToPath url dec win32 uri = Inr uri) \<and>
   (startsWith uri ''file:'' \<and>
    (isl (url uri) \<or> (\<exists>pathname. url uri = Inr pathname \<and> isl (dec pathname))) \<longrightarrow>
      fileUriToPath url dec win32 uri =
        Inr (case dec (stripFileScheme uri) of Inl e \<Rightarrow> uri | Inr decoded \<Rightarrow> decoded))"
proof (intro conjI impI)
  show "\<exists>s. fileUriToPath url dec win32 uri = Inr s"
    unfolding fileUriToPath_def by (rule tryCatch_nested_returns)
next
  assume "\<not> startsWith uri ''file:''"
  then have "fileUriToPathBody url dec win32 uri = Inr uri"
    by (simp add: fileUriToPathBody_def)
  then show "fileUriToPath url dec win32 uri = Inr uri"
    by (simp add: fileUriToPath_def tryCatch_def)
next
  assume a: "startsWith uri ''file:'' \<and>
    (isl (url uri) \<or> (\<exists>pathname. url uri = Inr pathname \<and> isl (dec pathname)))"
  then have ne: "uri \<noteq> []" by (auto simp: startsWith_def)
  from a have "isl (fileUriToPathBody url dec win32 uri)"
    using ne by (auto simp: fileUriToPathBody_def isl_def split: sum.splits)
  then obtain e where "fileUriToPathBody url dec win32 uri = Inl e"
    by (auto simp: isl_def)
  then have "fileUriToPath url dec win32 uri = tryCatch (fileUriToPathFallback dec uri) (Inr uri)"
    by (simp add: fileUriToPath_def tryCatch_def)
  then show "fileUriToPath url dec win32 uri =
        Inr (case dec (stripFileScheme uri) of Inl e \<Rightarrow> uri | Inr decoded \<Rightarrow> decoded)"
    by (simp only: fileUriToPathFallback_caught)
qed

theorem fileUriToPath_never_raises_witness:
  "\<not> startsWith ''/home/user'' ''file:'' \<and>
   fileUriToPath (\<lambda>u. Inl TypeError) (\<lambda>s. Inl URIError) False ''/home/user'' = Inr ''/home/user'' \<and>
   startsWith ''file://%zz'' ''file:'' \<and>
   fileUriToPath (\<lambda>u. Inl TypeError) (\<lambda>s. Inl URIError) False ''file://%zz'' = Inr ''file://%zz'' \<and>
   startsWith ''file://a%20b'' ''file:'' \<and>
   fileUriToPath (\<lambda>u. Inl TypeError) (\<lambda>s. if s = ''a%20b'' then Inr ''a b'' else Inl URIError)
     False ''file://a%20b'' = Inr ''a b''"
proof -
  let ?url = "\<lambda>u::string. Inl TypeError :: js_error + string"
  let ?bad = "\<lambda>s::string. Inl URIError :: js_error + string"
  let ?dec = "\<lambda>s. if s = ''a%20b'' then Inr ''a b'' else Inl URIError :: js_error + string"
  have h1: "\<not> startsWith ''/home/user'' ''file:''" by code_simp
  have h2: "startsWith ''file://%zz'' ''file:''" by code_simp
  have h3: "startsWith ''file://a%20b'' ''file:''" by code_simp
  have s2: "stripFileScheme ''file://%zz'' = ''%zz''" by code_simp
  have s3: "stripFileScheme ''file://a%20b'' = ''a%20b''" by code_simp
  from fileUriToPath_never_raises [of ?url ?bad False "''/home/user''"] h1
  have r1: "fileUriToPath ?url ?bad False ''/home/user'' = Inr ''/home/user''" by blast
  from fileUriToPath_never_raises [of ?url ?bad False "''file://%zz''"] h2
  have r2: "fileUriToPath ?url ?bad False ''file://%zz'' = Inr ''file://%zz''" by simp
  from fileUriToPath_never_raises [of ?url ?dec False "''file://a%20b''"] h3
  have r3: "fileUriToPath ?url ?dec False ''file://a%20b'' = Inr ''a b''"
    by (simp add: s3)
  from h1 h2 h3 r1 r2 r3 show ?thesis by blast
qed

text \<open>
  C9: on an input that does not start with \<^verbatim>\<open>file:\<close>, \<open>decodePossibleFileUri\<close> returns
  a string: the percent-decoding of the input when it contains \<^verbatim>\<open>%\<close> and two hexadecimal
  digits and the decoding succeeds, the input unchanged when the decoding throws, and the
  input unchanged when it contains no such escape.
\<close>

theorem decodePossibleFileUri_percent:
  assumes "\<not> startsWith p ''file:''"
  shows "(\<exists>s. decodePossibleFileUri url dec win32 p = Inr s) \<and>
         (hasPercentEscape p \<longrightarrow>
            decodePossibleFileUri url dec win32 p =
              Inr (case dec p of Inl e \<Rightarrow> p | Inr decoded \<Rightarrow> decoded)) \<and>
         (\<not> hasPercentEscape p \<longrightarrow> decodePossibleFileUri url dec win32 p = Inr p)"
  using assms by (auto simp: decodePossibleFileUri_def tryCatch_def split: sum.splits)

theorem decodePossibleFileUri_percent_witness:
  "\<not> startsWith ''%2Fhome%2Fuser'' ''file:'' \<and> hasPercentEscape ''%2Fhome%2Fuser'' \<and>
   decodePossibleFileUri (\<lambda>u. Inl TypeError)
     (\<lambda>s. if s = ''%2Fhome%2Fuser'' then Inr ''/home/user'' else Inl URIError) False
     ''%2Fhome%2Fuser'' = Inr ''/home/user'' \<and>
   \<not> startsWith ''%2F%'' ''file:'' \<and> hasPercentEscape ''%2F%'' \<and>
   decodePossibleFileUri (\<lambda>u. Inl TypeError) (\<lambda>s. Inl URIError) False ''%2F%'' = Inr ''%2F%'' \<and>
   \<not> startsWith ''100%'' ''file:'' \<and> \<not> hasPercentEscape ''100%'' \<and>
   decodePossibleFileUri (\<lambda>u. Inl TypeError) (\<lambda>s. Inl URIError) False ''100%'' = Inr ''100%''"
proof -
  let ?url = "\<lambda>u::string. Inl TypeError :: js_error + string"
  let ?bad = "\<lambda>s::string. Inl URIError :: js_error + string"
  let ?dec = "\<lambda>s. if s = ''%2Fhome%2Fuser'' then Inr ''/home/user'' else Inl URIError :: js_error + string"
  have f1: "\<not> startsWith ''%2Fhome%2Fuser'' ''file:''" by code_simp
  have f2: "\<not> startsWith ''%2F%'' ''file:''" by code_simp
  have f3: "\<not> startsWith ''100%'' ''file:''" by code_simp
  have p1: "hasPercentEscape ''%2Fhome%2Fuser''" by code_simp
  have p2: "hasPercentEscape ''%2F%''" by code_simp
  have p3: "\<not> hasPercentEscape ''100%''" by code_simp
  from decodePossibleFileUri_percent [OF f1, of ?url ?dec False] p1
  have r1: "decodePossibleFileUri ?url ?dec False ''%2Fhome%2Fuser'' = Inr ''/home/user''" by simp
  from decodePossibleFileUri_percent [OF f2, of ?url ?bad False] p2
  have r2: "decodePossibleFileUri ?url ?bad False ''%2F%'' = Inr ''%2F%''" by simp
  from decodePossibleFileUri_percent [OF f3, of ?url ?bad False] p3
  have r3: "decodePossibleFileUri ?url ?bad False ''100%'' = Inr ''100%''" by blast
  from f1 f2 f3 p1 p2 p3 r1 r2 r3 show ?thesis by blast
qed

end
